theory Spec2Isabelle
  imports Complex_Main
begin

section \<open>Numeric values and errors\<close>

text \<open>
  The analyzer computes on Python floats and on numpy float64 arrays. Both are modelled
  by the reals: rounding, overflow and underflow are outside the model. What the model
  keeps of IEEE arithmetic is the one place where it changes the control flow or the
  shape of a result:
  \<^item> a division of Python floats by zero raises \<open>ZeroDivisionError\<close>;
  \<^item> a numpy division by zero, and a scipy probability asked for an invalid
    parameter, raise nothing and yield \<open>nan\<close> (or an infinity). Such a value is \<open>None\<close>
    of type \<open>npfloat\<close>, and it is absorbing under the array arithmetic used here.
\<close>

datatype py_error = ZeroDivisionError | ValueError | IndexError

type_synonym npfloat = "real option"

definition py_truediv :: "real \<Rightarrow> real \<Rightarrow> py_error + real" where
  "py_truediv a b = (if b = 0 then Inl ZeroDivisionError else Inr (a / b))"

section \<open>Value and staking: \<open>calculate_expected_value\<close>, \<open>calculate_kelly_criterion\<close>\<close>

definition calculate_expected_value :: "real \<Rightarrow> real \<Rightarrow> real" where
  "calculate_expected_value probabilidade odd' = probabilidade * odd'"

text \<open>
  The three divisions of the source are kept in its order: \<open>implied_prob = 1 / odd\<close>
  (computed, never used), the edge, and the Kelly quotient. The early \<open>return 0\<close> is
  the \<open>edge \<le> 0\<close> branch. The arguments are Python floats, for which each division
  by zero raises.
\<close>

definition calculate_kelly_criterion :: "real \<Rightarrow> real \<Rightarrow> real \<Rightarrow> py_error + real" where
  "calculate_kelly_criterion probability odd' fraction =
     (case py_truediv 1 odd' of
        Inl e \<Rightarrow> Inl e
      | Inr implied_prob \<Rightarrow>
          (case py_truediv (probability * odd' - 1) (odd' - 1) of
             Inl e \<Rightarrow> Inl e
           | Inr edge \<Rightarrow>
               if edge \<le> 0 then Inr 0
               else (case py_truediv edge (odd' - 1) of
                       Inl e \<Rightarrow> Inl e
                     | Inr kelly \<Rightarrow> Inr (kelly * fraction))))"

text \<open>
  The function is untyped, and the application calls it with a \<open>numpy.float64\<close>
  probability (a sum of cells read with \<open>iloc\<close>), a Python float odd and a Python float
  fraction. Arithmetic with a \<open>numpy.float64\<close> operand is numpy's: a division by zero
  warns and yields an infinity or \<open>nan\<close>, and the function goes on with it. The second
  model below is the same source with that probability, finite values again as
  reals. \<open>1 / odd\<close> stays a division of Python numbers and raises at \<open>odd = 0\<close>; the
  zero divisor \<open>odd - 1\<close> at \<open>odd = 1\<close> is \<open>+0.0\<close>, so the sign of a quotient by zero is
  the sign of the dividend. \<open>le_0\<close> is the comparison \<open>edge <= 0\<close>, false of \<open>nan\<close>.
\<close>

datatype float64 = Finite real | PosInf | NegInf | NaN

definition np_truediv :: "float64 \<Rightarrow> real \<Rightarrow> float64" where
  "np_truediv x d =
     (case x of
        Finite a \<Rightarrow>
          if d \<noteq> 0 then Finite (a / d)
          else if 0 < a then PosInf else if a < 0 then NegInf else NaN
      | PosInf \<Rightarrow> if 0 \<le> d then PosInf else NegInf
      | NegInf \<Rightarrow> if 0 \<le> d then NegInf else PosInf
      | NaN \<Rightarrow> NaN)"

definition le_0 :: "float64 \<Rightarrow> bool" where
  "le_0 x = (case x of Finite a \<Rightarrow> a \<le> 0 | PosInf \<Rightarrow> False | NegInf \<Rightarrow> True | NaN \<Rightarrow> False)"

definition np_multiply :: "float64 \<Rightarrow> real \<Rightarrow> float64" where
  "np_multiply x f =
     (case x of
        Finite a \<Rightarrow> Finite (a * f)
      | PosInf \<Rightarrow> if 0 < f then PosInf else if f < 0 then NegInf else NaN
      | NegInf \<Rightarrow> if 0 < f then NegInf else if f < 0 then PosInf else NaN
      | NaN \<Rightarrow> NaN)"

definition calculate_kelly_criterion_float64 :: "real \<Rightarrow> real \<Rightarrow> real \<Rightarrow> py_error + float64" where
  "calculate_kelly_criterion_float64 probability odd' fraction =
     (case py_truediv 1 odd' of
        Inl e \<Rightarrow> Inl e
      | Inr implied_prob \<Rightarrow>
          (let edge = np_truediv (Finite (probability * odd' - 1)) (odd' - 1)
           in if le_0 edge then Inr (Finite 0)
              else (let kelly = np_truediv edge (odd' - 1)
                    in Inr (np_multiply kelly fraction))))"

text \<open>
  The sign of a stake can be decided by rounding, so the staking engine is modelled a
  third time, on IEEE 754 binary64 numbers with every operation rounded to nearest,
  ties to even. A finite double is the real number it stands for; \<open>rnd x\<close> is the
  double nearest to \<open>x\<close>: the doubles around \<open>x\<close> are the multiples of \<open>ulp x\<close>, which is
  \<open>2 powr (e - 52)\<close> for \<open>x\<close> from \<open>2 powr e\<close> up to \<open>2 powr (e + 1)\<close>, and
  \<open>2 powr - 1074\<close> below \<open>2 powr - 1022\<close>. A result of magnitude \<open>2 powr 1024\<close> or more is
  an infinity. The sign of a zero is not kept: no operation of the engine reads it,
  since Python's division raises on either zero. Python float multiplication,
  subtraction and division raise nothing on overflow or underflow; division raises on
  a zero divisor.
\<close>

definition round_half_even :: "real \<Rightarrow> int" where
  "round_half_even y =
     (let n = \<lfloor>y\<rfloor>; r = y - of_int n
      in if r < 1 / 2 then n else if 1 / 2 < r then n + 1 else if even n then n else n + 1)"

definition binade :: "real \<Rightarrow> int" where
  "binade x = max \<lfloor>log 2 \<bar>x\<bar>\<rfloor> (- 1022)"

definition ulp :: "real \<Rightarrow> real" where
  "ulp x = 2 powr (of_int (binade x) - 52)"

definition rnd :: "real \<Rightarrow> real" where
  "rnd x = (if x = 0 then 0 else ulp x * of_int (round_half_even (x / ulp x)))"

definition round64 :: "real \<Rightarrow> float64" where
  "round64 x =
     (let r = rnd x
      in if 2 powr 1024 \<le> \<bar>r\<bar> then (if 0 < r then PosInf else NegInf) else Finite r)"


definition sign64 :: "float64 \<Rightarrow> real" where
  "sign64 x = (case x of Finite a \<Rightarrow> sgn a | PosInf \<Rightarrow> 1 | NegInf \<Rightarrow> - 1 | NaN \<Rightarrow> 0)"

definition inf_of_sign :: "real \<Rightarrow> float64" where
  "inf_of_sign s = (if 0 < s then PosInf else if s < 0 then NegInf else NaN)"

definition float64_mul :: "float64 \<Rightarrow> float64 \<Rightarrow> float64" where
  "float64_mul x y =
     (case (x, y) of
        (Finite a, Finite b) \<Rightarrow> round64 (a * b)
      | (NaN, _) \<Rightarrow> NaN
      | (_, NaN) \<Rightarrow> NaN
      | _ \<Rightarrow> inf_of_sign (sign64 x * sign64 y))"

definition float64_sub :: "float64 \<Rightarrow> float64 \<Rightarrow> float64" where
  "float64_sub x y =
     (case (x, y) of
        (Finite a, Finite b) \<Rightarrow> round64 (a - b)
      | (NaN, _) \<Rightarrow> NaN
      | (_, NaN) \<Rightarrow> NaN
      | (PosInf, PosInf) \<Rightarrow> NaN
      | (NegInf, NegInf) \<Rightarrow> NaN
      | (PosInf, _) \<Rightarrow> PosInf
      | (NegInf, _) \<Rightarrow> NegInf
      | (_, PosInf) \<Rightarrow> NegInf
      | (_, NegInf) \<Rightarrow> PosInf)"

definition py_float_truediv :: "float64 \<Rightarrow> float64 \<Rightarrow> py_error + float64" where
  "py_float_truediv x y =
     (if y = Finite 0 then Inl ZeroDivisionError
      else Inr (case (x, y) of
                  (Finite a, Finite b) \<Rightarrow> round64 (a / b)
                | (NaN, _) \<Rightarrow> NaN
                | (_, NaN) \<Rightarrow> NaN
                | (Finite a, _) \<Rightarrow> Finite 0
                | (_, Finite b) \<Rightarrow> inf_of_sign (sign64 x * sgn b)
                | _ \<Rightarrow> NaN))"



section \<open>numpy and scipy operations used by the analyzer\<close>

text \<open>
  Arithmetic on values that may be \<open>nan\<close>: \<open>nan\<close> is absorbing, and a division by
  zero gives \<open>nan\<close> or an infinity (numpy warns and goes on).
\<close>

definition fmul :: "npfloat \<Rightarrow> npfloat \<Rightarrow> npfloat" where
  "fmul a b =
     (case a of None \<Rightarrow> None
      | Some x \<Rightarrow> (case b of None \<Rightarrow> None | Some y \<Rightarrow> Some (x * y)))"

definition fadd :: "npfloat \<Rightarrow> npfloat \<Rightarrow> npfloat" where
  "fadd a b =
     (case a of None \<Rightarrow> None
      | Some x \<Rightarrow> (case b of None \<Rightarrow> None | Some y \<Rightarrow> Some (x + y)))"

definition fdiv :: "npfloat \<Rightarrow> npfloat \<Rightarrow> npfloat" where
  "fdiv a b =
     (case a of None \<Rightarrow> None
      | Some x \<Rightarrow>
          (case b of None \<Rightarrow> None
           | Some y \<Rightarrow> if y = 0 then None else Some (x / y)))"

text \<open>\<open>range(n)\<close> for a Python int \<open>n\<close>: empty when \<open>n \<le> 0\<close>.\<close>

definition py_range :: "int \<Rightarrow> nat list" where
  "py_range n = [0..<nat n]"

text \<open>\<open>np.zeros((r, c))\<close> raises \<open>ValueError\<close> on a negative dimension.\<close>

definition np_zeros :: "int \<Rightarrow> int \<Rightarrow> py_error + real list list" where
  "np_zeros r c =
     (if r < 0 \<or> c < 0 then Inl ValueError
      else Inr (replicate (nat r) (replicate (nat c) 0)))"

text \<open>
  A two-dimensional array or data frame is the list of its rows. The row and column
  labels of the data frames carry no number and are left out; an assignment of labels
  of the wrong length raises \<open>ValueError\<close>, which the blender below keeps.
\<close>

definition nrows :: "'a list list \<Rightarrow> nat" where
  "nrows m = length m"

definition ncols :: "'a list list \<Rightarrow> nat" where
  "ncols m = (case m of [] \<Rightarrow> 0 | r # _ \<Rightarrow> length r)"

text \<open>The array written cell by cell in two nested \<open>for\<close> loops over ranges.\<close>

definition table :: "nat list \<Rightarrow> nat list \<Rightarrow> (nat \<Rightarrow> nat \<Rightarrow> 'a) \<Rightarrow> 'a list list" where
  "table rs cs f = map (\<lambda>i. map (\<lambda>j. f i j) cs) rs"

text \<open>\<open>np.sum\<close> of an array of finite numbers, and of one that may hold \<open>nan\<close>.\<close>

definition sum_grid :: "real list list \<Rightarrow> real" where
  "sum_grid m = sum_list (concat m)"

definition np_sum :: "npfloat list list \<Rightarrow> npfloat" where
  "np_sum m = foldl fadd (Some 0) (concat m)"

definition np_divide :: "npfloat list list \<Rightarrow> npfloat \<Rightarrow> npfloat list list" where
  "np_divide m s = map (map (\<lambda>x. fdiv x s)) m"

text \<open>
  \<open>scipy.stats.poisson.pmf(k, mu)\<close>, a library function, for an integer \<open>k \<ge> 0\<close>: the
  Poisson mass \<open>exp (- mu) * mu ^ k / k!\<close> (the formula the specification gives for it; 1
  at \<open>k = 0\<close>, \<open>mu = 0\<close>), and \<open>nan\<close>, with no exception, when \<open>mu < 0\<close>.
\<close>

definition pm :: "nat \<Rightarrow> real \<Rightarrow> real" where
  "pm k mu = exp (- mu) * mu ^ k / fact k"

definition poisson_pmf :: "nat \<Rightarrow> real \<Rightarrow> npfloat" where
  "poisson_pmf k mu = (if mu < 0 then None else Some (pm k mu))"

section \<open>Score matrix builders\<close>

definition calculate_poisson_probabilities :: "real \<Rightarrow> real \<Rightarrow> int \<Rightarrow> py_error + npfloat list list" where
  "calculate_poisson_probabilities home_expected_goals away_expected_goals max_goals =
     (case np_zeros (max_goals + 1) (max_goals + 1) of
        Inl e \<Rightarrow> Inl e
      | Inr zeros \<Rightarrow>
          Inr (table (py_range (max_goals + 1)) (py_range (max_goals + 1))
                 (\<lambda>i j. let home_prob = poisson_pmf i home_expected_goals;
                            away_prob = poisson_pmf j away_expected_goals
                        in fmul home_prob away_prob)))"

definition tau :: "nat \<Rightarrow> nat \<Rightarrow> real \<Rightarrow> real \<Rightarrow> real \<Rightarrow> real" where
  "tau x y lambda_x lambda_y rho =
     (if x = 0 \<and> y = 0 then 1 - lambda_x * lambda_y * rho
      else if x = 0 \<and> y = 1 then 1 + lambda_x * rho
      else if x = 1 \<and> y = 0 then 1 + lambda_y * rho
      else if x = 1 \<and> y = 1 then 1 - rho
      else 1)"

definition dixon_coles_adjustment :: "real \<Rightarrow> real \<Rightarrow> real \<Rightarrow> nat \<Rightarrow> nat \<Rightarrow> npfloat" where
  "dixon_coles_adjustment home_expected_goals away_expected_goals rho =
     (\<lambda>x y. let lambda_x = home_expected_goals;
                lambda_y = away_expected_goals;
                p_x = poisson_pmf x lambda_x;
                p_y = poisson_pmf y lambda_y;
                adjustment = tau x y lambda_x lambda_y rho
            in fmul (fmul p_x p_y) (Some adjustment))"

definition calculate_dixon_coles_matrix :: "real \<Rightarrow> real \<Rightarrow> int \<Rightarrow> real \<Rightarrow> py_error + npfloat list list" where
  "calculate_dixon_coles_matrix home_expected_goals away_expected_goals max_goals rho =
     (let dc_prob = dixon_coles_adjustment home_expected_goals away_expected_goals rho
      in case np_zeros (max_goals + 1) (max_goals + 1) of
           Inl e \<Rightarrow> Inl e
         | Inr zeros \<Rightarrow>
             (let probabilidades =
                    table (py_range (max_goals + 1)) (py_range (max_goals + 1)) dc_prob
              in Inr (np_divide probabilidades (np_sum probabilidades))))"

section \<open>Historical blender\<close>

text \<open>
  An index into an axis of length \<open>n\<close>: a negative Python int counts from the end,
  anything out of range raises \<open>IndexError\<close>.
\<close>

definition np_index :: "nat \<Rightarrow> int \<Rightarrow> py_error + nat" where
  "np_index n i =
     (if 0 \<le> i \<and> i < int n then Inr (nat i)
      else if - int n \<le> i \<and> i < 0 then Inr (nat (int n + i))
      else Inl IndexError)"

text \<open>\<open>a[i, j] += 1\<close>\<close>

definition increment :: "real list list \<Rightarrow> int \<Rightarrow> int \<Rightarrow> py_error + real list list" where
  "increment a i j =
     (case np_index (nrows a) i of
        Inl e \<Rightarrow> Inl e
      | Inr r \<Rightarrow>
          (case np_index (ncols a) j of
             Inl e \<Rightarrow> Inl e
           | Inr c \<Rightarrow> Inr (a[r := (a ! r)[c := a ! r ! c + 1]])))"

text \<open>The loop over the historical results, with the four branches of the source.\<close>

fun count_results :: "int \<Rightarrow> (int \<times> int) list \<Rightarrow> real list list \<Rightarrow> py_error + real list list" where
  "count_results max_goals [] freq_historica = Inr freq_historica"
| "count_results max_goals ((gols_casa, gols_fora) # rest) freq_historica =
     (case (if gols_casa \<le> max_goals \<and> gols_fora \<le> max_goals
              then increment freq_historica gols_casa gols_fora
            else if gols_casa > max_goals \<and> gols_fora \<le> max_goals
              then increment freq_historica max_goals gols_fora
            else if gols_casa \<le> max_goals \<and> gols_fora > max_goals
              then increment freq_historica gols_casa max_goals
            else increment freq_historica max_goals max_goals) of
        Inl e \<Rightarrow> Inl e
      | Inr freq' \<Rightarrow> count_results max_goals rest freq')"

text \<open>
  numpy broadcasting of two axis lengths: equal lengths, or one of them 1 (that axis is
  stretched); anything else raises \<open>ValueError\<close>. \<open>bc_get\<close> reads a stretched array.
\<close>

definition broadcast_dim :: "nat \<Rightarrow> nat \<Rightarrow> nat option" where
  "broadcast_dim a b =
     (if a = b then Some a else if a = 1 then Some b else if b = 1 then Some a else None)"

definition bc_get :: "real list list \<Rightarrow> nat \<Rightarrow> nat \<Rightarrow> real" where
  "bc_get m i j = m ! (if nrows m = 1 then 0 else i) ! (if ncols m = 1 then 0 else j)"

text \<open>
  The last two statements of the source give the result the labels of \<open>prob_base\<close>;
  they raise \<open>ValueError\<close> unless the blended array has the shape of \<open>prob_base\<close>.
\<close>

definition adjust_probabilities_with_history ::
    "real list list \<Rightarrow> (int \<times> int) list \<Rightarrow> real \<Rightarrow> int \<Rightarrow> py_error + npfloat list list" where
  "adjust_probabilities_with_history prob_base historical_results weight max_goals =
     (case np_zeros (max_goals + 1) (max_goals + 1) of
        Inl e \<Rightarrow> Inl e
      | Inr zeros \<Rightarrow>
          (case count_results max_goals historical_results zeros of
             Inl e \<Rightarrow> Inl e
           | Inr freq_historica \<Rightarrow>
               (let prob_historica =
                      (if sum_grid freq_historica > 0
                       then map (map (\<lambda>x. x / sum_grid freq_historica)) freq_historica
                       else zeros)
                in case broadcast_dim (nrows prob_base) (nrows prob_historica) of
                     None \<Rightarrow> Inl ValueError
                   | Some r \<Rightarrow>
                       (case broadcast_dim (ncols prob_base) (ncols prob_historica) of
                          None \<Rightarrow> Inl ValueError
                        | Some c \<Rightarrow>
                            (let mix = table [0..<r] [0..<c]
                                         (\<lambda>i j. (1 - weight) * bc_get prob_base i j
                                                + weight * bc_get prob_historica i j);
                                 prob_ajustada =
                                   np_divide (map (map Some) mix) (Some (sum_grid mix))
                             in if c = ncols prob_base \<and> r = nrows prob_base
                                then Inr prob_ajustada else Inl ValueError)))))"

section \<open>Market aggregator\<close>

record market_acc =
  prob_vitoria_casa :: real
  prob_empate :: real
  prob_vitoria_fora :: real
  prob_over :: "(real \<times> real) list"
  prob_ambas_marcam :: real

text \<open>\<open>matriz_prob.iloc[i, j]\<close>: positional, \<open>IndexError\<close> out of bounds.\<close>

definition iloc :: "real list list \<Rightarrow> nat \<Rightarrow> nat \<Rightarrow> py_error + real" where
  "iloc m i j = (if i < nrows m \<and> j < ncols m then Inr (m ! i ! j) else Inl IndexError)"

text \<open>The body of the inner loop: the three accumulations for one cell.\<close>

definition market_cell :: "nat \<Rightarrow> nat \<Rightarrow> real \<Rightarrow> market_acc \<Rightarrow> market_acc" where
  "market_cell i j prob acc =
     (let acc1 = (if i > j then acc\<lparr>prob_vitoria_casa := prob_vitoria_casa acc + prob\<rparr>
                  else if i = j then acc\<lparr>prob_empate := prob_empate acc + prob\<rparr>
                  else acc\<lparr>prob_vitoria_fora := prob_vitoria_fora acc + prob\<rparr>);
          total_gols = i + j;
          acc2 = acc1\<lparr>prob_over :=
                   map (\<lambda>(limite, v). if real total_gols > limite then (limite, v + prob)
                                        else (limite, v))
                     (prob_over acc1)\<rparr>
      in if i > 0 \<and> j > 0
         then acc2\<lparr>prob_ambas_marcam := prob_ambas_marcam acc2 + prob\<rparr>
         else acc2)"

fun market_row :: "real list list \<Rightarrow> nat \<Rightarrow> nat list \<Rightarrow> market_acc \<Rightarrow> py_error + market_acc" where
  "market_row m i [] acc = Inr acc"
| "market_row m i (j # js) acc =
     (case iloc m i j of
        Inl e \<Rightarrow> Inl e
      | Inr prob \<Rightarrow> market_row m i js (market_cell i j prob acc))"

fun market_rows :: "real list list \<Rightarrow> nat list \<Rightarrow> nat list \<Rightarrow> market_acc \<Rightarrow> py_error + market_acc" where
  "market_rows m [] js acc = Inr acc"
| "market_rows m (i # rest) js acc =
     (case market_row m i js acc of
        Inl e \<Rightarrow> Inl e
      | Inr acc' \<Rightarrow> market_rows m rest js acc')"

text \<open>
  Python's \<open>str\<close> of the five thresholds, as the f-strings of the source print them (no
  other float is formatted there).
\<close>

definition str_limite :: "real \<Rightarrow> string" where
  "str_limite x =
     (if x = 1 / 2 then ''0.5'' else if x = 3 / 2 then ''1.5''
      else if x = 5 / 2 then ''2.5'' else if x = 7 / 2 then ''3.5'' else ''4.5'')"

text \<open>
  The result dictionary, as the list of its items in insertion order (the keys are
  distinct). The last key is \<open>Ambas Marcam N\<tilde>ao\<close>, its fifteenth letter in UTF-8.
\<close>

definition calculate_market_probabilities :: "real list list \<Rightarrow> py_error + (string \<times> real) list" where
  "calculate_market_probabilities matriz_prob =
     (let max_gols = int (nrows matriz_prob) - 1;
          acc0 = \<lparr>prob_vitoria_casa = 0, prob_empate = 0, prob_vitoria_fora = 0,
                  prob_over = map (\<lambda>i. (i, 0)) [1 / 2, 3 / 2, 5 / 2, 7 / 2, 9 / 2],
                  prob_ambas_marcam = 0\<rparr>
      in case market_rows matriz_prob (py_range (max_gols + 1)) (py_range (max_gols + 1)) acc0 of
           Inl e \<Rightarrow> Inl e
         | Inr acc \<Rightarrow>
             Inr ([(''1'', prob_vitoria_casa acc), (''X'', prob_empate acc),
                   (''2'', prob_vitoria_fora acc)]
                  @ concat (map (\<lambda>(limite, prob).
                                   [(''Over '' @ str_limite limite, prob),
                                    (''Under '' @ str_limite limite, 1 - prob)])
                              (prob_over acc))
                  @ [(''Ambas Marcam Sim'', prob_ambas_marcam acc),
                     (''Ambas Marcam N'' @ [CHR 0xC3, CHR 0xA3] @ ''o'',
                      1 - prob_ambas_marcam acc)]))"

section \<open>Score ranker\<close>

text \<open>The decimal digits of a natural number, as \<open>f"{i}"\<close> prints them.\<close>

fun str_nat :: "nat \<Rightarrow> string" where
  "str_nat n =
     (if n < 10 then [char_of (48 + n)]
      else str_nat (n div 10) @ [char_of (48 + n mod 10)])"

declare str_nat.simps [simp del]

text \<open>
  \<open>sorted(placares, key=lambda x: x[1], reverse=True)\<close> is a stable sort into
  descending order of the key: equal keys keep their order in \<open>placares\<close>. The stable
  ascending sort by the negated key is the same list. \<open>xs[:n]\<close> keeps the first \<open>n\<close>
  items, and drops the last \<open>-n\<close> when \<open>n\<close> is negative.
\<close>

definition sorted_reverse :: "('a \<Rightarrow> real) \<Rightarrow> 'a list \<Rightarrow> 'a list" where
  "sorted_reverse key xs = sort_key (\<lambda>x. - key x) xs"

definition py_prefix :: "'a list \<Rightarrow> int \<Rightarrow> 'a list" where
  "py_prefix xs n = (if 0 \<le> n then take (nat n) xs else take (length xs - nat (- n)) xs)"

definition placar :: "nat \<Rightarrow> nat \<Rightarrow> string" where
  "placar i j = str_nat i @ ''-'' @ str_nat j"

definition find_most_probable_scores :: "real list list \<Rightarrow> int \<Rightarrow> (string \<times> real) list" where
  "find_most_probable_scores matriz_prob n =
     (let placares =
            concat (map (\<lambda>i. map (\<lambda>j. (placar i j, matriz_prob ! i ! j))
                                [0..<ncols matriz_prob])
                      [0..<nrows matriz_prob]);
          placares_ordenados = sorted_reverse snd placares
      in py_prefix placares_ordenados n)"

section \<open>Notions the properties are stated with\<close>

text \<open>
  A score grid for \<open>max_goals = K\<close> is square, with \<open>n = K + 1\<close> rows of \<open>n\<close> cells.
  Goal counts are natural numbers (the caller parses them from digits).
\<close>

definition is_grid :: "nat \<Rightarrow> 'a list list \<Rightarrow> bool" where
  "is_grid n m = (length m = n \<and> list_all (\<lambda>r. length r = n) m)"

definition goals_valid :: "(int \<times> int) list \<Rightarrow> bool" where
  "goals_valid h = list_all (\<lambda>(gols_casa, gols_fora). 0 \<le> gols_casa \<and> 0 \<le> gols_fora) h"

text \<open>
  The empirical frequency grid in the words of the specification, to compare the
  blender with: each result counts for the cell \<open>(min home K, min away K)\<close>, and the
  counts are divided by the number of results.
\<close>

definition clamp_count :: "int \<Rightarrow> (int \<times> int) list \<Rightarrow> nat \<Rightarrow> nat \<Rightarrow> nat" where
  "clamp_count K h i j =
     length (filter (\<lambda>(gols_casa, gols_fora). min gols_casa K = int i \<and> min gols_fora K = int j) h)"

definition empirical_grid :: "int \<Rightarrow> (int \<times> int) list \<Rightarrow> real list list" where
  "empirical_grid K h =
     table [0..<nat (K + 1)] [0..<nat (K + 1)]
       (\<lambda>i j. real (clamp_count K h i j) / real (length h))"

text \<open>The cells of \<open>prob_historica\<close>: all zero for an empty history.\<close>

definition hist_prob :: "int \<Rightarrow> (int \<times> int) list \<Rightarrow> nat \<Rightarrow> nat \<Rightarrow> real" where
  "hist_prob K h = (\<lambda>i j. if h = [] then 0 else real (clamp_count K h i j) / real (length h))"

text \<open>
  The ranker's output read back as grid cells: \<open>scored m (i, j)\<close> is the pair of the
  label \<open>i-j\<close> and the probability of the cell; \<open>row_major\<close> is the order in which the
  two loops visit the cells; \<open>ranked_before\<close> is the order of the result, by falling
  probability and, among equal probabilities, in the order of the visit.
\<close>

definition scored :: "real list list \<Rightarrow> nat \<times> nat \<Rightarrow> string \<times> real" where
  "scored m c = (placar (fst c) (snd c), m ! fst c ! snd c)"

definition row_major :: "nat \<times> nat \<Rightarrow> nat \<times> nat \<Rightarrow> bool" where
  "row_major = (\<lambda>a b. fst a < fst b \<or> (fst a = fst b \<and> snd a < snd b))"

definition ranked_before :: "real list list \<Rightarrow> nat \<times> nat \<Rightarrow> nat \<times> nat \<Rightarrow> bool" where
  "ranked_before m =
     (\<lambda>a b. m ! fst a ! snd a > m ! fst b ! snd b
            \<or> (m ! fst a ! snd a = m ! fst b ! snd b \<and> row_major a b))"

text \<open>
  The label of a cell, stated without the ranker's own formatting: \<open>decimal_of n s\<close>
  says that \<open>s\<close> is the decimal numeral of \<open>n\<close> (digits only, no leading zero, of value
  \<open>n\<close>), and \<open>labelled i j s\<close> that \<open>s\<close> is the numeral of \<open>i\<close>, a hyphen, then the numeral
  of \<open>j\<close>.
\<close>

definition digit :: "char \<Rightarrow> bool" where
  "digit c = (48 \<le> (of_char c :: nat) \<and> (of_char c :: nat) \<le> 57)"

definition decimal_value :: "string \<Rightarrow> nat" where
  "decimal_value s = foldl (\<lambda>v c. 10 * v + ((of_char c :: nat) - 48)) 0 s"

definition decimal_of :: "nat \<Rightarrow> string \<Rightarrow> bool" where
  "decimal_of n s =
     (s \<noteq> [] \<and> list_all digit s \<and> (s = ''0'' \<or> hd s \<noteq> CHR ''0'') \<and> decimal_value s = n)"

definition labelled :: "nat \<Rightarrow> nat \<Rightarrow> string \<Rightarrow> bool" where
  "labelled i j s = (\<exists>a b. s = a @ ''-'' @ b \<and> decimal_of i a \<and> decimal_of j b)"

section \<open>Properties of the staking engine\<close>

lemma kelly_regular:
  "od \<noteq> 0 \<Longrightarrow> od \<noteq> 1 \<Longrightarrow>
   calculate_kelly_criterion p od f =
     Inr (if (p * od - 1) / (od - 1) \<le> 0 then 0
          else (p * od - 1) / (od - 1) / (od - 1) * f)"
  by (simp add: calculate_kelly_criterion_def py_truediv_def)

text \<open>
  Claim C1. For a probability \<open>p\<close> in \<open>[0, 1]\<close>, a decimal odd above 1 and a fraction in
  \<open>(0, 1]\<close>, the Kelly computation returns 0 when the edge \<open>(p * od - 1) / (od - 1)\<close> is
  at most 0 and the edge divided by \<open>od - 1\<close>, times the fraction, otherwise. At
  \<open>p = 0.6\<close>, \<open>od = 2\<close> this is 0.2 for the full Kelly and 0.1 at fraction 0.5; at
  \<open>p = 0.3\<close>, \<open>od = 2\<close> it is 0 whatever the fraction.
\<close>

theorem kelly_formula:
  assumes "0 \<le> p" "p \<le> 1" "1 < od" "0 < f" "f \<le> 1"
  shows "calculate_kelly_criterion p od f =
           Inr (if (p * od - 1) / (od - 1) \<le> 0 then 0
                else (p * od - 1) / (od - 1) / (od - 1) * f)
         \<and> calculate_kelly_criterion (6 / 10) 2 1 = Inr (2 / 10)
         \<and> calculate_kelly_criterion (6 / 10) 2 (1 / 2) = Inr (1 / 10)
         \<and> calculate_kelly_criterion (3 / 10) 2 f = Inr 0"
  using assms by (simp add: kelly_regular)

theorem kelly_formula_witness:
  "calculate_kelly_criterion (3 / 4) 3 (1 / 2) = Inr (5 / 32)"
  using kelly_formula [of "3 / 4" 3 "1 / 2"] by simp

text \<open>
  Claim C2 asks for an \<open>InvalidOdd\<close> failure at every odd \<open>od \<le> 1\<close>. The source checks
  nothing: at \<open>p = 0.5\<close>, \<open>od = 0.5\<close> and full Kelly the edge is 1.5 and the function
  returns the number \<open>-3\<close>.
\<close>

theorem kelly_invalid_odd_counterexample:
  "(1 / 2 :: real) \<le> 1 \<and> calculate_kelly_criterion (1 / 2) (1 / 2) 1 = Inr (- 3)"
  by (simp add: kelly_regular)

lemma kelly_float64_regular:
  "od \<noteq> 0 \<Longrightarrow> od \<noteq> 1 \<Longrightarrow>
   calculate_kelly_criterion_float64 p od f =
     Inr (Finite (if (p * od - 1) / (od - 1) \<le> 0 then 0
                  else (p * od - 1) / (od - 1) / (od - 1) * f))"
  by (simp add: calculate_kelly_criterion_float64_def py_truediv_def np_truediv_def
      le_0_def np_multiply_def Let_def)

text \<open>
  Claim C2, as the code has it. For an odd \<open>od \<le> 1\<close> the Kelly computation never
  validates its argument and no \<open>InvalidOdd\<close> exists. At every \<open>od\<close> other than 0 and 1
  it returns a number by the same formula as for valid odds. At \<open>od = 1\<close> it divides by
  zero: with a Python float probability Python raises \<open>ZeroDivisionError\<close>; with the
  \<open>numpy.float64\<close> probability of the application nothing is raised and the function
  returns 0 when \<open>p < 1\<close> and \<open>nan\<close> when \<open>p = 1\<close>. At \<open>od = 0\<close> the division \<open>1 / odd\<close>
  raises \<open>ZeroDivisionError\<close>.
\<close>

theorem kelly_no_validation:
  assumes "od \<le> 1"
  shows "calculate_kelly_criterion p od f =
           (if od = 0 \<or> od = 1 then Inl ZeroDivisionError
            else Inr (if (p * od - 1) / (od - 1) \<le> 0 then 0
                      else (p * od - 1) / (od - 1) / (od - 1) * f))
         \<and> calculate_kelly_criterion_float64 p od f =
           (if od = 0 then Inl ZeroDivisionError
            else if od = 1
              then Inr (if p < 1 then Finite 0 else if p = 1 then NaN
                        else np_multiply PosInf f)
            else Inr (Finite (if (p * od - 1) / (od - 1) \<le> 0 then 0
                              else (p * od - 1) / (od - 1) / (od - 1) * f)))"
proof -
  have 1: "calculate_kelly_criterion p od f =
           (if od = 0 \<or> od = 1 then Inl ZeroDivisionError
            else Inr (if (p * od - 1) / (od - 1) \<le> 0 then 0
                      else (p * od - 1) / (od - 1) / (od - 1) * f))"
    by (simp add: calculate_kelly_criterion_def py_truediv_def)
  have 2: "calculate_kelly_criterion_float64 p od f =
           (if od = 0 then Inl ZeroDivisionError
            else if od = 1
              then Inr (if p < 1 then Finite 0 else if p = 1 then NaN
                        else np_multiply PosInf f)
            else Inr (Finite (if (p * od - 1) / (od - 1) \<le> 0 then 0
                              else (p * od - 1) / (od - 1) / (od - 1) * f)))"
  proof (cases "od = 0 \<or> od = 1")
    case False
    then show ?thesis by (simp add: kelly_float64_regular)
  next
    case True
    then show ?thesis
      by (auto simp: calculate_kelly_criterion_float64_def py_truediv_def np_truediv_def
          le_0_def np_multiply_def Let_def)
  qed
  from 1 2 show ?thesis by simp
qed

theorem kelly_no_validation_witness:
  "calculate_kelly_criterion (1 / 2) 1 1 = Inl ZeroDivisionError
   \<and> calculate_kelly_criterion_float64 (1 / 2) 1 1 = Inr (Finite 0)
   \<and> calculate_kelly_criterion_float64 1 1 1 = Inr NaN
   \<and> calculate_kelly_criterion (1 / 2) 0 1 = Inl ZeroDivisionError
   \<and> calculate_kelly_criterion_float64 (1 / 2) 0 1 = Inl ZeroDivisionError
   \<and> calculate_kelly_criterion (1 / 2) (1 / 2) 1 = Inr (- 3)
   \<and> calculate_kelly_criterion_float64 (1 / 2) (1 / 2) 1 = Inr (Finite (- 3))"
  using kelly_no_validation [of 1 "1 / 2" 1] kelly_no_validation [of 1 1 1]
    kelly_no_validation [of 0 "1 / 2" 1] kelly_no_validation [of "1 / 2" "1 / 2" 1]
  by simp

section \<open>Properties of the staking engine on doubles\<close>

subsection \<open>Rounding to an integer\<close>








subsection \<open>Rounding to a double\<close>





















subsection \<open>Doubles\<close>









subsection \<open>The staking engine on doubles\<close>

lemma float64_ops [simp]:
  "float64_mul (Finite a) (Finite b) = round64 (a * b)"
  "float64_sub (Finite a) (Finite b) = round64 (a - b)"
  "py_float_truediv (Finite a) (Finite b) =
     (if b = 0 then Inl ZeroDivisionError else Inr (round64 (a / b)))"
  "le_0 (Finite a) \<longleftrightarrow> a \<le> 0"
  by (simp_all add: float64_mul_def float64_sub_def py_float_truediv_def le_0_def)














section \<open>Properties of the score matrix builders\<close>

subsection \<open>Sums of grids\<close>

lemma sum_list_concat_rows: "sum_list (concat xss) = sum_list (map sum_list xss)"
  for xss :: "real list list"
  by (induction xss) simp_all

lemma sum_grid_table:
  "sum_grid (table [0..<r] [0..<c] f) = (\<Sum>i<r. \<Sum>j<c. f i j)"
  by (simp add: sum_grid_def table_def sum_list_concat_rows comp_def
      interv_sum_list_conv_sum_set_nat atLeast0LessThan)

lemma foldl_fadd_Some:
  "foldl fadd (Some a) (map Some xs) = Some (a + sum_list xs)"
  by (induction xs arbitrary: a) (simp_all add: fadd_def add.assoc)

lemma np_sum_Some: "np_sum (map (map Some) g) = Some (sum_grid g)"
proof -
  have "concat (map (map Some) g) = map Some (concat g)"
    by (simp add: map_concat)
  then show ?thesis
    by (simp add: np_sum_def sum_grid_def foldl_fadd_Some)
qed

lemma foldl_fadd_None: "foldl fadd None xs = None"
  by (induction xs) (simp_all add: fadd_def)

lemma foldl_fadd_has_None: "None \<in> set xs \<Longrightarrow> foldl fadd a xs = None"
proof (induction xs arbitrary: a)
  case Nil
  then show ?case by simp
next
  case (Cons x xs)
  show ?case
  proof (cases "x = None")
    case True
    then have "fadd a x = None" by (simp add: fadd_def split: option.splits)
    then show ?thesis by (simp add: foldl_fadd_None)
  next
    case False
    with Cons show ?thesis by simp
  qed
qed

lemma map_table: "map (map g) (table rs cs f) = table rs cs (\<lambda>i j. g (f i j))"
  by (simp add: table_def comp_def)

lemma sum_grid_divide:
  "sum_grid (map (map (\<lambda>x. x / s)) g) = sum_grid g / s"
proof -
  have "sum_list (map (\<lambda>x. x / s) xs) = sum_list xs / s" for xs :: "real list"
    by (induction xs) (simp_all add: add_divide_distrib)
  then show ?thesis
    by (simp add: sum_grid_def map_concat [symmetric])
qed

lemma np_divide_Some:
  "s \<noteq> 0 \<Longrightarrow>
   np_divide (map (map Some) g) (Some s) = map (map Some) (map (map (\<lambda>x. x / s)) g)"
  by (simp add: np_divide_def fdiv_def comp_def)

subsection \<open>The Poisson mass\<close>

lemma poisson_pmf_nonneg: "0 \<le> mu \<Longrightarrow> poisson_pmf k mu = Some (pm k mu)"
  by (simp add: poisson_pmf_def)

lemma pm_nonneg: "0 \<le> mu \<Longrightarrow> 0 \<le> pm k mu"
  by (simp add: pm_def)

lemma pm_0: "pm 0 mu = exp (- mu)"
  by (simp add: pm_def)

lemma pm_1: "pm (Suc 0) mu = exp (- mu) * mu"
  by (simp add: pm_def)

lemma exp_partial_sum_le:
  fixes mu :: real
  assumes "0 \<le> mu"
  shows "(\<Sum>k<n. mu ^ k / fact k) \<le> exp mu"
proof -
  have "(\<Sum>k<n. mu ^ k /\<^sub>R fact k) \<le> (\<Sum>k. mu ^ k /\<^sub>R fact k)"
  proof (rule sum_le_suminf)
    show "summable (\<lambda>k. mu ^ k /\<^sub>R fact k)"
      by (rule summable_exp_generic)
    show "finite {..<n}" by simp
    show "0 \<le> mu ^ k /\<^sub>R fact k" for k
      using assms by simp
  qed
  then show ?thesis
    by (simp add: exp_def divide_inverse mult.commute)
qed

lemma pm_sum_le_1:
  assumes "0 \<le> mu"
  shows "(\<Sum>k<n. pm k mu) \<le> 1"
proof -
  have "(\<Sum>k<n. pm k mu) = exp (- mu) * (\<Sum>k<n. mu ^ k / fact k)"
    by (simp add: pm_def sum_distrib_left)
  also have "\<dots> \<le> exp (- mu) * exp mu"
    using exp_partial_sum_le [OF assms] by (intro mult_left_mono) simp_all
  also have "\<dots> = 1"
    by (simp add: exp_minus)
  finally show ?thesis .
qed

lemma pm_sum_nonneg: "0 \<le> mu \<Longrightarrow> 0 \<le> (\<Sum>k<n. pm k mu)"
  by (simp add: sum_nonneg pm_nonneg)

lemma pm_sum_pos: "0 \<le> mu \<Longrightarrow> 0 < (\<Sum>k<Suc n. pm k mu)"
proof -
  assume mu: "0 \<le> mu"
  have "pm 0 mu \<le> (\<Sum>k<Suc n. pm k mu)"
    using mu by (intro member_le_sum) (simp_all add: pm_nonneg)
  moreover have "0 < pm 0 mu" by (simp add: pm_0)
  ultimately show ?thesis by linarith
qed

lemma poisson_mass:
  "(\<Sum>i<n. \<Sum>j<n. pm i a * pm j b) = (\<Sum>i<n. pm i a) * (\<Sum>j<n. pm j b)"
  by (simp add: sum_product)

lemma poisson_mass_le_1:
  assumes "0 \<le> a" "0 \<le> b"
  shows "(\<Sum>i<n. \<Sum>j<n. pm i a * pm j b) \<le> 1"
proof -
  have "(\<Sum>i<n. pm i a) * (\<Sum>j<n. pm j b) \<le> 1 * 1"
    using assms by (intro mult_mono pm_sum_le_1 pm_sum_nonneg) simp_all
  then show ?thesis by (simp add: poisson_mass)
qed

lemma poisson_mass_pos:
  assumes "0 \<le> a" "0 \<le> b"
  shows "0 < (\<Sum>i<Suc n. \<Sum>j<Suc n. pm i a * pm j b)"
  unfolding poisson_mass using assms by (intro mult_pos_pos pm_sum_pos)


subsection \<open>Builders\<close>

lemma fmul_Some: "fmul (Some x) (Some y) = Some (x * y)"
  by (simp add: fmul_def)

lemma fmul_None_left: "fmul None y = None"
  by (simp add: fmul_def)

lemma fmul_None_right: "fmul x None = None"
  by (simp add: fmul_def split: option.splits)

lemma fdiv_None_left: "fdiv None s = None"
  by (simp add: fdiv_def)

lemma np_zeros_ok: "- 1 \<le> K \<Longrightarrow> np_zeros (K + 1) (K + 1) =
    Inr (replicate (nat (K + 1)) (replicate (nat (K + 1)) 0))"
  by (simp add: np_zeros_def)

lemma poisson_valid:
  assumes "0 \<le> a" "0 \<le> b" "- 1 \<le> K"
  shows "calculate_poisson_probabilities a b K =
           Inr (map (map Some)
                  (table [0..<nat (K + 1)] [0..<nat (K + 1)] (\<lambda>i j. pm i a * pm j b)))"
  using assms
  by (simp add: calculate_poisson_probabilities_def np_zeros_ok py_range_def map_table
      poisson_pmf_nonneg fmul_Some)

lemma dixon_coles_cells:
  assumes "0 \<le> a" "0 \<le> b"
  shows "table rs cs (dixon_coles_adjustment a b rho) =
           map (map Some) (table rs cs (\<lambda>i j. pm i a * pm j b * tau i j a b rho))"
  using assms
  by (simp add: dixon_coles_adjustment_def map_table poisson_pmf_nonneg fmul_Some)

lemma dixon_coles_valid:
  assumes "0 \<le> a" "0 \<le> b" "- 1 \<le> K"
    and "sum_grid (table [0..<nat (K + 1)] [0..<nat (K + 1)]
            (\<lambda>i j. pm i a * pm j b * tau i j a b rho)) = s" "s \<noteq> 0"
  shows "calculate_dixon_coles_matrix a b K rho =
           Inr (map (map Some)
                  (map (map (\<lambda>x. x / s))
                     (table [0..<nat (K + 1)] [0..<nat (K + 1)]
                        (\<lambda>i j. pm i a * pm j b * tau i j a b rho))))"
  using assms
  by (simp add: calculate_dixon_coles_matrix_def np_zeros_ok py_range_def
      dixon_coles_cells np_sum_Some np_divide_Some)

lemma tau_rho_0: "tau i j a b 0 = 1"
  by (simp add: tau_def)

lemma tau_outside: "2 \<le> i \<or> 2 \<le> j \<Longrightarrow> tau i j a b rho = 1"
  by (auto simp: tau_def)

lemma dc_mass_single:
  "(\<Sum>i<Suc 0. \<Sum>j<Suc 0. pm i a * pm j b * tau i j a b rho) =
     exp (- a) * exp (- b) * (1 - a * b * rho)"
  by (simp add: pm_0 tau_def)

lemma dc_mass_eq_poisson_mass:
  assumes "2 \<le> n"
  shows "(\<Sum>i<n. \<Sum>j<n. pm i a * pm j b * tau i j a b rho) =
         (\<Sum>i<n. \<Sum>j<n. pm i a * pm j b)"
proof -
  let ?D = "\<lambda>i j. pm i a * pm j b * (tau i j a b rho - 1)"
  have inner: "(\<Sum>j<n. ?D i j) = (\<Sum>j<2. ?D i j)" for i
    using assms by (intro sum.mono_neutral_right) (auto simp: tau_outside)
  have zero: "(\<Sum>j<2. ?D i j) = 0" if "2 \<le> i" for i
    using that by (simp add: tau_outside)
  have "(\<Sum>i<n. \<Sum>j<n. ?D i j) = (\<Sum>i<n. \<Sum>j<2. ?D i j)"
    by (simp only: inner)
  also have "\<dots> = (\<Sum>i<2. \<Sum>j<2. ?D i j)"
    using assms by (intro sum.mono_neutral_right) (auto simp: zero)
  also have "\<dots> = 0"
    by (simp add: eval_nat_numeral lessThan_Suc pm_0 pm_1 tau_def algebra_simps)
  finally have "(\<Sum>i<n. \<Sum>j<n. ?D i j) = 0" .
  moreover have "(\<Sum>i<n. \<Sum>j<n. pm i a * pm j b * tau i j a b rho) =
      (\<Sum>i<n. \<Sum>j<n. pm i a * pm j b) + (\<Sum>i<n. \<Sum>j<n. ?D i j)"
    by (simp add: sum.distrib [symmetric] algebra_simps)
  ultimately show ?thesis by simp
qed

lemma dc_mass_nonzero:
  assumes "0 \<le> a" "0 \<le> b" "0 \<le> K" "1 \<le> K \<or> a * b * rho \<noteq> 1"
  shows "(\<Sum>i<nat (K + 1). \<Sum>j<nat (K + 1). pm i a * pm j b * tau i j a b rho) \<noteq> 0"
proof (cases "1 \<le> K")
  case True
  then obtain m where m: "nat (K + 1) = Suc m" and two: "2 \<le> nat (K + 1)"
    by (cases "nat (K + 1)") auto
  have "0 < (\<Sum>i<nat (K + 1). \<Sum>j<nat (K + 1). pm i a * pm j b)"
    unfolding m by (rule poisson_mass_pos [OF assms(1,2)])
  then show ?thesis
    by (simp only: dc_mass_eq_poisson_mass [OF two])
next
  case False
  with assms have "K = 0" and "a * b * rho \<noteq> 1" by auto
  then show ?thesis
    by (simp add: pm_0 tau_def)
qed


text \<open>
  The two halves of claim C3 in exact arithmetic. For rates \<open>a, b \<ge> 0\<close> and \<open>K \<ge> 0\<close>
  the Poisson-mode grid is the table of the products of the two Poisson masses, not
  normalised: every cell is at least 0 and the cells sum to at most 1. The Dixon-Coles
  mass before normalisation is not 0 whenever \<open>K \<ge> 1\<close> or \<open>a * b * rho \<noteq> 1\<close>, and the
  normalised grid then sums to 1. On doubles a mass that underflows to \<open>0.0\<close> (rates
  of several hundred goals) meets the same unguarded division as a mass that is 0.
\<close>

lemma poisson_grid_bounds:
  assumes "0 \<le> a" "0 \<le> b" "0 \<le> K"
  shows "\<exists>g. calculate_poisson_probabilities a b K = Inr (map (map Some) g)
           \<and> g = table [0..<nat (K + 1)] [0..<nat (K + 1)] (\<lambda>i j. pm i a * pm j b)
           \<and> list_all (list_all (\<lambda>x. 0 \<le> x)) g
           \<and> sum_grid g \<le> 1"
proof -
  let ?n = "nat (K + 1)"
  let ?g = "table [0..<?n] [0..<?n] (\<lambda>i j. pm i a * pm j b)"
  have 1: "calculate_poisson_probabilities a b K = Inr (map (map Some) ?g)"
    using assms by (intro poisson_valid) simp_all
  have 2: "list_all (list_all (\<lambda>x. 0 \<le> x)) ?g"
    using assms by (simp add: table_def list_all_iff pm_nonneg)
  have 3: "sum_grid ?g \<le> 1"
    using assms by (simp only: sum_grid_table poisson_mass_le_1)
  from 1 2 3 show ?thesis by blast
qed

lemma dixon_coles_unit_mass_exact:
  assumes "0 \<le> a" "0 \<le> b" "0 \<le> K" "1 \<le> K \<or> a * b * rho \<noteq> 1"
  shows "\<exists>d. calculate_dixon_coles_matrix a b K rho = Inr (map (map Some) d)
             \<and> sum_grid d = 1"
proof -
  let ?n = "nat (K + 1)"
  let ?c = "table [0..<?n] [0..<?n] (\<lambda>i j. pm i a * pm j b * tau i j a b rho)"
  have nz: "sum_grid ?c \<noteq> 0"
    using assms by (simp only: sum_grid_table dc_mass_nonzero not_False_eq_True)
  have "calculate_dixon_coles_matrix a b K rho =
      Inr (map (map Some) (map (map (\<lambda>x. x / sum_grid ?c)) ?c))"
    using assms nz by (intro dixon_coles_valid) simp_all
  moreover have "sum_grid (map (map (\<lambda>x. x / sum_grid ?c)) ?c) = 1"
    using nz by (simp only: sum_grid_divide) simp
  ultimately show ?thesis by blast
qed

text \<open>
  Claim C3 says that the Dixon-Coles grid sums to 1 after its normalisation, as the
  comment on that step does (\<open>Normalizar para garantir que a soma seja 1\<close>). The division
  by \<open>np.sum\<close> has no guard: with \<open>K = 0\<close>, both rates 1 and \<open>rho = 1\<close> the only cell is
  \<open>exp (-2) * (1 - 1) = 0\<close>, the normalisation divides 0 by 0, and the grid returned is
  a single \<open>nan\<close>.
\<close>

theorem dixon_coles_zero_mass:
  "calculate_dixon_coles_matrix 1 1 0 1 = Inr [[None]]"
  by (simp add: calculate_dixon_coles_matrix_def np_zeros_def py_range_def table_def
      dixon_coles_adjustment_def poisson_pmf_def tau_def fmul_def np_sum_def fadd_def
      np_divide_def fdiv_def)

text \<open>
  Claim C8 asks for an \<open>InvalidInput\<close> failure at a negative rate. Neither builder checks
  its rates: at a home rate of \<open>-1\<close> both return a grid, whose only cell is \<open>nan\<close>.
\<close>

theorem negative_rate_counterexample:
  "calculate_poisson_probabilities (- 1) 1 0 = Inr [[None]]
   \<and> calculate_dixon_coles_matrix (- 1) 1 0 (- 1 / 10) = Inr [[None]]"
  by (simp add: calculate_poisson_probabilities_def calculate_dixon_coles_matrix_def
      np_zeros_def py_range_def table_def
      dixon_coles_adjustment_def poisson_pmf_def tau_def fmul_def np_sum_def fadd_def
      np_divide_def fdiv_def)

lemma table_const: "table [0..<r] [0..<c] (\<lambda>i j. v) = replicate r (replicate c v)"
  by (simp add: table_def map_replicate_const)

text \<open>
  Claim C8, as the code has it. When a rate is negative (and \<open>K \<ge> 0\<close>) neither builder
  fails: each returns a grid of \<open>K + 1\<close> rows and columns in which every cell is \<open>nan\<close>.
\<close>

theorem negative_rate_nan_grid:
  assumes "a < 0 \<or> b < 0" "0 \<le> K"
  shows "calculate_poisson_probabilities a b K =
           Inr (replicate (nat (K + 1)) (replicate (nat (K + 1)) None))
         \<and> calculate_dixon_coles_matrix a b K rho =
           Inr (replicate (nat (K + 1)) (replicate (nat (K + 1)) None))"
proof -
  have cell: "fmul (poisson_pmf i a) (poisson_pmf j b) = None" for i j
    using assms(1) by (auto simp: poisson_pmf_def fmul_None_left fmul_None_right)
  have "calculate_poisson_probabilities a b K =
           Inr (replicate (nat (K + 1)) (replicate (nat (K + 1)) None))"
    using assms(2)
    by (simp add: calculate_poisson_probabilities_def np_zeros_ok py_range_def cell table_const)
  moreover have "calculate_dixon_coles_matrix a b K rho =
           Inr (replicate (nat (K + 1)) (replicate (nat (K + 1)) None))"
    using assms(2)
    by (simp add: calculate_dixon_coles_matrix_def np_zeros_ok py_range_def
        dixon_coles_adjustment_def cell fmul_None_left table_const np_divide_def fdiv_None_left)
  ultimately show ?thesis by simp
qed

theorem negative_rate_nan_grid_witness:
  "calculate_poisson_probabilities (- 1) 2 1 = Inr [[None, None], [None, None]]
   \<and> calculate_dixon_coles_matrix 2 (- 1) 1 (- 1 / 10) = Inr [[None, None], [None, None]]"
  using negative_rate_nan_grid [of "- 1" 2 1 "- 1 / 10"] negative_rate_nan_grid [of 2 "- 1" 1 "- 1 / 10"]
  by (simp add: eval_nat_numeral)

text \<open>
  Claim C10. For rates \<open>a, b \<ge> 0\<close> and \<open>K \<ge> 0\<close>, the Dixon-Coles builder at \<open>rho = 0\<close>
  returns the Poisson-mode grid with every cell divided by the total mass of that grid
  (which is positive).
\<close>

theorem dixon_coles_rho_0:
  assumes "0 \<le> a" "0 \<le> b" "0 \<le> K"
  shows "\<exists>p. calculate_poisson_probabilities a b K = Inr (map (map Some) p)
           \<and> 0 < sum_grid p
           \<and> calculate_dixon_coles_matrix a b K 0 =
               Inr (map (map Some) (map (map (\<lambda>x. x / sum_grid p)) p))"
proof -
  let ?n = "nat (K + 1)"
  let ?p = "table [0..<?n] [0..<?n] (\<lambda>i j. pm i a * pm j b)"
  obtain m where m: "?n = Suc m"
    using assms(3) by (cases ?n) auto
  have pos: "0 < sum_grid ?p"
    unfolding sum_grid_table m by (rule poisson_mass_pos [OF assms(1,2)])
  have 1: "calculate_poisson_probabilities a b K = Inr (map (map Some) ?p)"
    using assms by (intro poisson_valid) simp_all
  have "calculate_dixon_coles_matrix a b K 0 =
      Inr (map (map Some) (map (map (\<lambda>x. x / sum_grid ?p))
         (table [0..<?n] [0..<?n] (\<lambda>i j. pm i a * pm j b * tau i j a b 0))))"
    using assms pos by (intro dixon_coles_valid) (simp_all add: tau_rho_0)
  then have 2: "calculate_dixon_coles_matrix a b K 0 =
      Inr (map (map Some) (map (map (\<lambda>x. x / sum_grid ?p)) ?p))"
    by (simp add: tau_rho_0)
  from 1 pos 2 show ?thesis by blast
qed

theorem dixon_coles_rho_0_witness:
  "\<exists>p. calculate_poisson_probabilities 1 1 1 = Inr (map (map Some) p)
           \<and> 0 < sum_grid p
           \<and> calculate_dixon_coles_matrix 1 1 1 0 =
               Inr (map (map Some) (map (map (\<lambda>x. x / sum_grid p)) p))"
  using dixon_coles_rho_0 [of 1 1 1] by simp

section \<open>Properties of the historical blender\<close>

subsection \<open>Shapes\<close>

lemma table_cong:
  "(\<And>i j. i \<in> set rs \<Longrightarrow> j \<in> set cs \<Longrightarrow> f i j = g i j) \<Longrightarrow> table rs cs f = table rs cs g"
  by (simp add: table_def)

lemma is_grid_table: "is_grid n (table [0..<n] [0..<n] f)"
  by (simp add: is_grid_def table_def list_all_iff)

lemma is_grid_nth: "is_grid n m \<Longrightarrow> i < n \<Longrightarrow> length (m ! i) = n"
  by (simp add: is_grid_def list_all_length)

lemma is_grid_as_table:
  assumes "is_grid n m"
  shows "m = table [0..<n] [0..<n] (\<lambda>i j. m ! i ! j)"
proof (rule nth_equalityI)
  show "length m = length (table [0..<n] [0..<n] (\<lambda>i j. m ! i ! j))"
    using assms by (simp add: is_grid_def table_def)
next
  fix i assume "i < length m"
  then have i: "i < n" using assms by (simp add: is_grid_def)
  then have "length (m ! i) = n" using assms by (rule is_grid_nth [rotated])
  then have "m ! i = map (\<lambda>j. m ! i ! j) [0..<n]"
    by (metis map_nth)
  then show "m ! i = table [0..<n] [0..<n] (\<lambda>i j. m ! i ! j) ! i"
    using i by (simp add: table_def)
qed

lemma nrows_grid: "is_grid n m \<Longrightarrow> nrows m = n"
  by (simp add: is_grid_def nrows_def)

lemma ncols_grid: "is_grid n m \<Longrightarrow> ncols m = n"
  by (cases m) (auto simp: is_grid_def ncols_def)

lemma is_grid_zeros: "is_grid n (replicate n (replicate n z))"
  by (simp add: is_grid_def list_all_iff)

lemma table_nth: "i < r \<Longrightarrow> j < c \<Longrightarrow> table [0..<r] [0..<c] f ! i ! j = f i j"
  by (simp add: table_def)

lemma bc_get_grid: "is_grid n m \<Longrightarrow> i < n \<Longrightarrow> j < n \<Longrightarrow> bc_get m i j = m ! i ! j"
  by (auto simp: bc_get_def nrows_grid ncols_grid)

subsection \<open>Counting the historical results\<close>

lemma np_index_in_range: "0 \<le> i \<Longrightarrow> i < int n \<Longrightarrow> np_index n i = Inr (nat i)"
  by (simp add: np_index_def)

lemma increment_grid:
  assumes "is_grid n a" "0 \<le> i" "i < int n" "0 \<le> j" "j < int n"
  shows "increment a i j = Inr (a[nat i := (a ! nat i)[nat j := a ! nat i ! nat j + 1]])"
  using assms by (simp add: increment_def nrows_grid ncols_grid np_index_in_range)

lemma is_grid_update:
  assumes "is_grid n a"
  shows "is_grid n (a[r := (a ! r)[c := v]])"
proof (cases "r < length a")
  case True
  then have "length ((a ! r)[c := v]) = n"
    using assms by (simp add: is_grid_def list_all_length)
  moreover have "set (a[r := (a ! r)[c := v]]) \<subseteq> insert ((a ! r)[c := v]) (set a)"
    by (rule set_update_subset_insert)
  ultimately have "\<forall>x\<in>set (a[r := (a ! r)[c := v]]). length x = n"
    using assms by (auto simp: is_grid_def list_all_iff)
  then show ?thesis
    using assms by (simp add: is_grid_def list_all_iff)
next
  case False
  then show ?thesis using assms by (simp add: list_update_beyond)
qed

lemma count_step:
  assumes "0 \<le> K" "0 \<le> gc" "0 \<le> gf" "is_grid (nat (K + 1)) freq"
  shows "(if gc \<le> K \<and> gf \<le> K then increment freq gc gf
          else if gc > K \<and> gf \<le> K then increment freq K gf
          else if gc \<le> K \<and> gf > K then increment freq gc K
          else increment freq K K) =
         Inr (freq[nat (min gc K) := (freq ! nat (min gc K))
                [nat (min gf K) := freq ! nat (min gc K) ! nat (min gf K) + 1]])"
proof -
  have "(if gc \<le> K \<and> gf \<le> K then increment freq gc gf
          else if gc > K \<and> gf \<le> K then increment freq K gf
          else if gc \<le> K \<and> gf > K then increment freq gc K
          else increment freq K K) = increment freq (min gc K) (min gf K)"
    by (auto simp: min_def)
  also have "\<dots> = Inr (freq[nat (min gc K) := (freq ! nat (min gc K))
                [nat (min gf K) := freq ! nat (min gc K) ! nat (min gf K) + 1]])"
    using assms by (intro increment_grid) auto
  finally show ?thesis .
qed


lemma clamp_count_Cons:
  "clamp_count K ((gc, gf) # h) i j =
     (if min gc K = int i \<and> min gf K = int j then 1 else 0) + clamp_count K h i j"
  by (simp add: clamp_count_def)

lemma count_results_table:
  assumes "0 \<le> K" "goals_valid h" "is_grid (nat (K + 1)) freq"
  shows "count_results K h freq =
           Inr (table [0..<nat (K + 1)] [0..<nat (K + 1)]
                  (\<lambda>i j. freq ! i ! j + real (clamp_count K h i j)))"
  using assms(2,3)
proof (induction h arbitrary: freq)
  case Nil
  then show ?case
    using is_grid_as_table [of "nat (K + 1)" freq] by (simp add: clamp_count_def)
next
  case (Cons x h)
  obtain gc gf where x: "x = (gc, gf)" by (cases x)
  let ?n = "nat (K + 1)"
  let ?r = "nat (min gc K)" and ?c = "nat (min gf K)"
  let ?freq' = "freq[?r := (freq ! ?r)[?c := freq ! ?r ! ?c + 1]]"
  from Cons.prems x have nonneg: "0 \<le> gc" "0 \<le> gf" and rest: "goals_valid h"
    by (simp_all add: goals_valid_def)
  have r: "?r < ?n" and c: "?c < ?n"
    using assms(1) nonneg by auto
  have grid': "is_grid ?n ?freq'"
    using Cons.prems(2) by (rule is_grid_update)
  have step: "count_results K (x # h) freq = count_results K h ?freq'"
    unfolding x using count_step [OF assms(1) nonneg Cons.prems(2)] by simp
  have cell: "?freq' ! i ! j + real (clamp_count K h i j) =
        freq ! i ! j + real (clamp_count K (x # h) i j)" if "i < ?n" "j < ?n" for i j
  proof -
    have len: "length freq = ?n" "length (freq ! ?r) = ?n"
      using Cons.prems(2) r by (simp_all add: is_grid_def is_grid_nth [OF Cons.prems(2)])
    have eq: "(min gc K = int i \<and> min gf K = int j) \<longleftrightarrow> (i = ?r \<and> j = ?c)"
      using nonneg assms(1) by auto
    show ?thesis
      unfolding x clamp_count_Cons eq
      using that len r c by (auto simp: nth_list_update)
  qed
  show ?case
    unfolding step Cons.IH [OF rest grid']
    by (auto intro!: table_cong simp: cell)
qed


lemma clamp_count_total:
  assumes "0 \<le> K" "goals_valid h"
  shows "(\<Sum>i<nat (K + 1). \<Sum>j<nat (K + 1). real (clamp_count K h i j)) = real (length h)"
  using assms(2)
proof (induction h)
  case Nil
  then show ?case by (simp add: clamp_count_def)
next
  case (Cons x h)
  obtain gc gf where x: "x = (gc, gf)" by (cases x)
  let ?n = "nat (K + 1)"
  let ?r = "nat (min gc K)" and ?c = "nat (min gf K)"
  from Cons.prems x have nonneg: "0 \<le> gc" "0 \<le> gf" and rest: "goals_valid h"
    by (simp_all add: goals_valid_def)
  have r: "?r < ?n" and c: "?c < ?n"
    using assms(1) nonneg by auto
  have eq: "(min gc K = int i \<and> min gf K = int j) \<longleftrightarrow> (i = ?r \<and> j = ?c)" for i j
    using nonneg assms(1) by auto
  have inner: "(\<Sum>j<?n. (if i = ?r \<and> j = ?c then 1 else 0 :: real)) = (if i = ?r then 1 else 0)" for i
  proof (cases "i = ?r")
    case True
    then show ?thesis using c by simp
  next
    case False
    then show ?thesis by simp
  qed
  have one: "(\<Sum>i<?n. \<Sum>j<?n. (if i = ?r \<and> j = ?c then 1 else 0 :: real)) = 1"
    unfolding inner using r by simp
  have split: "real (clamp_count K (x # h) i j) =
      (if i = ?r \<and> j = ?c then 1 else 0) + real (clamp_count K h i j)" for i j
    unfolding x clamp_count_Cons using eq [of i j] by simp
  have "(\<Sum>i<?n. \<Sum>j<?n. real (clamp_count K (x # h) i j)) =
      (\<Sum>i<?n. \<Sum>j<?n. (if i = ?r \<and> j = ?c then 1 else 0)) +
      (\<Sum>i<?n. \<Sum>j<?n. real (clamp_count K h i j))"
    unfolding split by (simp add: sum.distrib)
  then show ?case
    using one Cons.IH [OF rest] by simp
qed


subsection \<open>The blend\<close>

lemma count_results_zeros:
  assumes "0 \<le> K" "goals_valid h"
  shows "count_results K h (replicate (nat (K + 1)) (replicate (nat (K + 1)) 0)) =
           Inr (table [0..<nat (K + 1)] [0..<nat (K + 1)] (\<lambda>i j. real (clamp_count K h i j)))"
  unfolding count_results_table [OF assms is_grid_zeros]
  by (auto intro!: table_cong)

lemma blend_general:
  fixes w :: real
  assumes "0 \<le> K" "goals_valid h" "is_grid (nat (K + 1)) base"
  defines "n \<equiv> nat (K + 1)"
  defines "mix \<equiv> table [0..<n] [0..<n] (\<lambda>i j. (1 - w) * base ! i ! j + w * hist_prob K h i j)"
  shows "adjust_probabilities_with_history base h w K =
           Inr (np_divide (map (map Some) mix) (Some (sum_grid mix)))"
proof -
  let ?zeros = "replicate n (replicate n (0::real))"
  let ?freq = "table [0..<n] [0..<n] (\<lambda>i j. real (clamp_count K h i j))"
  let ?hist = "table [0..<n] [0..<n] (hist_prob K h)"
  have zeros: "np_zeros (K + 1) (K + 1) = Inr ?zeros"
    using assms(1) by (simp add: np_zeros_ok n_def)
  have count: "count_results K h ?zeros = Inr ?freq"
    unfolding n_def by (rule count_results_zeros [OF assms(1,2)])
  have total: "sum_grid ?freq = real (length h)"
    unfolding n_def sum_grid_table by (rule clamp_count_total [OF assms(1,2)])
  have hist: "(if sum_grid ?freq > 0 then map (map (\<lambda>x. x / sum_grid ?freq)) ?freq else ?zeros) = ?hist"
  proof (cases "h = []")
    case True
    then show ?thesis
      unfolding total by (simp add: hist_prob_def table_const [symmetric])
  next
    case False
    then show ?thesis
      unfolding total by (simp add: hist_prob_def map_table)
  qed
  have grid: "is_grid n ?hist"
    by (rule is_grid_table)
  have base: "is_grid n base"
    using assms(3) by (simp add: n_def)
  have mix: "table [0..<n] [0..<n] (\<lambda>i j. (1 - w) * bc_get base i j + w * bc_get ?hist i j) = mix"
    unfolding mix_def
    by (rule table_cong) (simp add: bc_get_grid [OF base] bc_get_grid [OF grid] table_nth)
  show ?thesis
    unfolding adjust_probabilities_with_history_def
    by (simp add: zeros count Let_def hist nrows_grid [OF grid] ncols_grid [OF grid]
        nrows_grid [OF base] ncols_grid [OF base] broadcast_dim_def mix)
qed


lemma sum_grid_scale: "sum_grid (map (map ((*) c)) g) = c * sum_grid g"
proof -
  have "sum_list (map ((*) c) xs) = c * sum_list xs" for xs :: "real list"
    by (induction xs) (simp_all add: distrib_left)
  then show ?thesis
    by (simp add: sum_grid_def map_concat [symmetric])
qed

lemma np_divide_scale:
  assumes "c \<noteq> 0"
  shows "np_divide (map (map Some) (map (map ((*) c)) g)) (Some (c * s)) =
         np_divide (map (map Some) g) (Some s)"
  using assms by (simp add: np_divide_def fdiv_def comp_def)

lemma empty_history_blend:
  fixes w :: real
  assumes "0 \<le> K" "is_grid (nat (K + 1)) base" "w \<noteq> 1"
  shows "adjust_probabilities_with_history base [] w K =
           Inr (np_divide (map (map Some) base) (Some (sum_grid base)))"
proof -
  let ?n = "nat (K + 1)"
  have "table [0..<?n] [0..<?n] (\<lambda>i j. (1 - w) * base ! i ! j + w * hist_prob K [] i j) =
        map (map ((*) (1 - w))) (table [0..<?n] [0..<?n] (\<lambda>i j. base ! i ! j))"
    by (simp add: map_table hist_prob_def)
  also have "\<dots> = map (map ((*) (1 - w))) base"
    using is_grid_as_table [OF assms(2)] by simp
  finally have mix: "table [0..<?n] [0..<?n]
      (\<lambda>i j. (1 - w) * base ! i ! j + w * hist_prob K [] i j) = map (map ((*) (1 - w))) base" .
  have "goals_valid []" by (simp add: goals_valid_def)
  from blend_general [OF assms(1) this assms(2), of w]
  have "adjust_probabilities_with_history base [] w K =
      Inr (np_divide (map (map Some) (map (map ((*) (1 - w))) base))
             (Some ((1 - w) * sum_grid base)))"
    unfolding mix sum_grid_scale .
  also have "np_divide (map (map Some) (map (map ((*) (1 - w))) base))
             (Some ((1 - w) * sum_grid base)) =
         np_divide (map (map Some) base) (Some (sum_grid base))"
    using assms(3) by (intro np_divide_scale) simp
  finally show ?thesis .
qed

text \<open>
  Claim C4 says that a blend with weight 0 returns the base grid unchanged, also for a
  base grid of mass below 1. The blender always divides by the total mass: the base
  grid of the single cell \<open>1/2\<close> comes back as the single cell 1.
\<close>

theorem blend_weight_0_counterexample:
  "adjust_probabilities_with_history [[1 / 2]] [] 0 0 = Inr [[Some 1]]
   \<and> adjust_probabilities_with_history [[1 / 2]] [] 0 0 \<noteq> Inr (map (map Some) [[1 / 2]])"
  by (simp add: adjust_probabilities_with_history_def np_zeros_def sum_grid_def
      broadcast_dim_def nrows_def ncols_def table_def bc_get_def np_divide_def fdiv_def)

text \<open>
  Claim C4, as the code has it. For a base grid of \<open>K + 1\<close> rows and columns and a
  history of results: the blend with weight 0 is the base grid divided by its own total
  mass (so unchanged exactly when that mass is 1), and the blend with weight 1 and a
  history that is not empty is the empirical frequency grid, whose cells sum to 1.
\<close>

theorem blend_extreme_weights:
  assumes "0 \<le> K" "goals_valid h" "is_grid (nat (K + 1)) base"
  shows "adjust_probabilities_with_history base h 0 K =
           Inr (np_divide (map (map Some) base) (Some (sum_grid base)))
         \<and> (h \<noteq> [] \<longrightarrow>
              adjust_probabilities_with_history base h 1 K = Inr (map (map Some) (empirical_grid K h))
              \<and> sum_grid (empirical_grid K h) = 1)"
proof -
  let ?n = "nat (K + 1)"
  have "table [0..<?n] [0..<?n] (\<lambda>i j. (1 - 0) * base ! i ! j + 0 * hist_prob K h i j) = base"
    using is_grid_as_table [OF assms(3)] by simp
  with blend_general [OF assms, of 0]
  have zero: "adjust_probabilities_with_history base h 0 K =
           Inr (np_divide (map (map Some) base) (Some (sum_grid base)))"
    by simp
  have one: "adjust_probabilities_with_history base h 1 K = Inr (map (map Some) (empirical_grid K h))
              \<and> sum_grid (empirical_grid K h) = 1" if "h \<noteq> []"
  proof -
    have mix: "table [0..<?n] [0..<?n] (\<lambda>i j. (1 - 1) * base ! i ! j + 1 * hist_prob K h i j) =
        empirical_grid K h"
      using that by (simp add: hist_prob_def empirical_grid_def)
    have "sum_grid (empirical_grid K h) =
        (\<Sum>i<?n. \<Sum>j<?n. real (clamp_count K h i j)) / real (length h)"
      by (simp add: empirical_grid_def sum_grid_table sum_divide_distrib)
    then have mass: "sum_grid (empirical_grid K h) = 1"
      using that by (simp add: clamp_count_total [OF assms(1,2)])
    from blend_general [OF assms, of 1] show ?thesis
      unfolding mix mass by (simp add: np_divide_def fdiv_def comp_def)
  qed
  from zero one show ?thesis by blast
qed

theorem blend_extreme_weights_witness:
  "adjust_probabilities_with_history [[1 / 2, 1 / 4], [1 / 8, 1 / 16]] [(0, 0), (3, 1), (1, 5)] 0 1 =
     Inr [[Some (8 / 15), Some (4 / 15)], [Some (2 / 15), Some (1 / 15)]]
   \<and> adjust_probabilities_with_history [[1 / 2, 1 / 4], [1 / 8, 1 / 16]] [(0, 0), (3, 1), (1, 5)] 1 1 =
     Inr [[Some (1 / 3), Some 0], [Some 0, Some (2 / 3)]]"
  using blend_extreme_weights [of 1 "[(0, 0), (3, 1), (1, 5)]" "[[1 / 2, 1 / 4], [1 / 8, 1 / 16]]"]
  by (simp add: goals_valid_def is_grid_def np_divide_def fdiv_def sum_grid_def
      empirical_grid_def table_def clamp_count_def eval_nat_numeral)

text \<open>
  Claim C5 says that with an empty history the blender returns the base grid divided by
  its mass at every weight in \<open>[0, 1]\<close>. The lemma \<open>empty_history_blend\<close> shows it
  for every weight but 1. At weight 1 the blended grid is all zero and the final
  normalisation divides 0 by 0: for the base grid of the single cell 1 the blender
  returns a \<open>nan\<close>, where the base grid divided by its mass is the cell 1.
\<close>

theorem empty_history_full_weight:
  "adjust_probabilities_with_history [[1]] [] 1 0 = Inr [[None]]
   \<and> np_divide (map (map Some) [[1]]) (Some (sum_grid [[1]])) = [[Some 1]]"
  by (simp add: adjust_probabilities_with_history_def np_zeros_def sum_grid_def
      broadcast_dim_def nrows_def ncols_def table_def bc_get_def np_divide_def fdiv_def)

section \<open>Properties of the market aggregator\<close>

lemma iloc_grid: "is_grid n m \<Longrightarrow> i < n \<Longrightarrow> j < n \<Longrightarrow> iloc m i j = Inr (m ! i ! j)"
  by (simp add: iloc_def nrows_grid ncols_grid)

lemma market_cell_casa:
  "prob_vitoria_casa (market_cell i j p acc) = prob_vitoria_casa acc + (if i > j then p else 0)"
  by (simp add: market_cell_def Let_def)

lemma market_cell_empate:
  "prob_empate (market_cell i j p acc) = prob_empate acc + (if i = j then p else 0)"
  by (simp add: market_cell_def Let_def)

lemma market_cell_fora:
  "prob_vitoria_fora (market_cell i j p acc) = prob_vitoria_fora acc + (if i < j then p else 0)"
  by (auto simp: market_cell_def Let_def)

lemma market_row_grid:
  assumes "is_grid n m" "i < n" "list_all (\<lambda>j. j < n) js"
  shows "\<exists>acc'. market_row m i js acc = Inr acc'
           \<and> prob_vitoria_casa acc' =
               prob_vitoria_casa acc + (\<Sum>j\<leftarrow>js. if i > j then m ! i ! j else 0)
           \<and> prob_empate acc' =
               prob_empate acc + (\<Sum>j\<leftarrow>js. if i = j then m ! i ! j else 0)
           \<and> prob_vitoria_fora acc' =
               prob_vitoria_fora acc + (\<Sum>j\<leftarrow>js. if i < j then m ! i ! j else 0)"
  using assms(3)
proof (induction js arbitrary: acc)
  case Nil
  then show ?case by simp
next
  case (Cons j js)
  then have j: "j < n" and js: "list_all (\<lambda>j. j < n) js" by simp_all
  from Cons.IH [OF js, of "market_cell i j (m ! i ! j) acc"]
  obtain acc' where "market_row m i js (market_cell i j (m ! i ! j) acc) = Inr acc'"
      and "prob_vitoria_casa acc' = prob_vitoria_casa (market_cell i j (m ! i ! j) acc)
            + (\<Sum>j\<leftarrow>js. if i > j then m ! i ! j else 0)"
      and "prob_empate acc' = prob_empate (market_cell i j (m ! i ! j) acc)
            + (\<Sum>j\<leftarrow>js. if i = j then m ! i ! j else 0)"
      and "prob_vitoria_fora acc' = prob_vitoria_fora (market_cell i j (m ! i ! j) acc)
            + (\<Sum>j\<leftarrow>js. if i < j then m ! i ! j else 0)"
    by blast
  then show ?case
    by (simp add: iloc_grid [OF assms(1,2) j] market_cell_casa market_cell_empate
        market_cell_fora)
qed

lemma market_rows_grid:
  assumes "is_grid n m" "list_all (\<lambda>j. j < n) js" "list_all (\<lambda>i. i < n) rs"
  shows "\<exists>acc'. market_rows m rs js acc = Inr acc'
           \<and> prob_vitoria_casa acc' =
               prob_vitoria_casa acc + (\<Sum>i\<leftarrow>rs. \<Sum>j\<leftarrow>js. if i > j then m ! i ! j else 0)
           \<and> prob_empate acc' =
               prob_empate acc + (\<Sum>i\<leftarrow>rs. \<Sum>j\<leftarrow>js. if i = j then m ! i ! j else 0)
           \<and> prob_vitoria_fora acc' =
               prob_vitoria_fora acc + (\<Sum>i\<leftarrow>rs. \<Sum>j\<leftarrow>js. if i < j then m ! i ! j else 0)"
  using assms(3)
proof (induction rs arbitrary: acc)
  case Nil
  then show ?case by simp
next
  case (Cons i rs)
  then have i: "i < n" and rs: "list_all (\<lambda>i. i < n) rs" by simp_all
  from market_row_grid [OF assms(1) i assms(2), of acc]
  obtain acc1 where row: "market_row m i js acc = Inr acc1"
      and r1: "prob_vitoria_casa acc1 =
               prob_vitoria_casa acc + (\<Sum>j\<leftarrow>js. if i > j then m ! i ! j else 0)"
      and r2: "prob_empate acc1 =
               prob_empate acc + (\<Sum>j\<leftarrow>js. if i = j then m ! i ! j else 0)"
      and r3: "prob_vitoria_fora acc1 =
               prob_vitoria_fora acc + (\<Sum>j\<leftarrow>js. if i < j then m ! i ! j else 0)"
    by blast
  from Cons.IH [OF rs, of acc1]
  obtain acc' where "market_rows m rs js acc1 = Inr acc'"
      and "prob_vitoria_casa acc' =
               prob_vitoria_casa acc1 + (\<Sum>i\<leftarrow>rs. \<Sum>j\<leftarrow>js. if i > j then m ! i ! j else 0)"
      and "prob_empate acc' =
               prob_empate acc1 + (\<Sum>i\<leftarrow>rs. \<Sum>j\<leftarrow>js. if i = j then m ! i ! j else 0)"
      and "prob_vitoria_fora acc' =
               prob_vitoria_fora acc1 + (\<Sum>i\<leftarrow>rs. \<Sum>j\<leftarrow>js. if i < j then m ! i ! j else 0)"
    by blast
  then show ?case
    by (simp add: row r1 r2 r3)
qed


lemma sum_list_upt: "(\<Sum>i\<leftarrow>[0..<n]. f i) = (\<Sum>i<n. f i)" for f :: "nat \<Rightarrow> real"
  by (simp add: interv_sum_list_conv_sum_set_nat atLeast0LessThan)

lemma sum_grid_cells:
  assumes "is_grid n m"
  shows "sum_grid m = (\<Sum>i<n. \<Sum>j<n. m ! i ! j)"
proof -
  have "sum_grid m = sum_grid (table [0..<n] [0..<n] (\<lambda>i j. m ! i ! j))"
    using is_grid_as_table [OF assms] by simp
  then show ?thesis by (simp only: sum_grid_table)
qed

lemma result_buckets_total:
  fixes f :: "nat \<Rightarrow> nat \<Rightarrow> real"
  shows "(\<Sum>i<n. \<Sum>j<n. if i > j then f i j else 0)
       + (\<Sum>i<n. \<Sum>j<n. if i = j then f i j else 0)
       + (\<Sum>i<n. \<Sum>j<n. if i < j then f i j else 0) = (\<Sum>i<n. \<Sum>j<n. f i j)"
proof -
  have "(if i > j then f i j else 0) + (if i = j then f i j else 0)
      + (if i < j then f i j else 0) = f i j" for i j
    by auto
  then have "(\<Sum>i<n. \<Sum>j<n. f i j) =
      (\<Sum>i<n. \<Sum>j<n. (if i > j then f i j else 0) + (if i = j then f i j else 0)
          + (if i < j then f i j else 0))"
    by simp
  also have "\<dots> = (\<Sum>i<n. \<Sum>j<n. if i > j then f i j else 0)
       + (\<Sum>i<n. \<Sum>j<n. if i = j then f i j else 0)
       + (\<Sum>i<n. \<Sum>j<n. if i < j then f i j else 0)"
    by (simp only: sum.distrib)
  finally show ?thesis by simp
qed

text \<open>
  Claim C6. For every score grid the market aggregator returns a dictionary in which
  \<open>1\<close> is the sum of the cells with \<open>i > j\<close>, \<open>X\<close> of those with \<open>i = j\<close> and \<open>2\<close> of
  those with \<open>i < j\<close>: every cell is in exactly one of the three, so the three values
  add up to the total mass of the grid, whatever that mass is.
\<close>

theorem market_result_partition:
  assumes "is_grid n m"
  shows "\<exists>probs h d a. calculate_market_probabilities m = Inr probs
           \<and> map_of probs ''1'' = Some h \<and> map_of probs ''X'' = Some d
           \<and> map_of probs ''2'' = Some a
           \<and> h = (\<Sum>i<n. \<Sum>j<n. if i > j then m ! i ! j else 0)
           \<and> d = (\<Sum>i<n. \<Sum>j<n. if i = j then m ! i ! j else 0)
           \<and> a = (\<Sum>i<n. \<Sum>j<n. if i < j then m ! i ! j else 0)
           \<and> h + d + a = sum_grid m"
proof -
  let ?acc0 = "\<lparr>prob_vitoria_casa = 0, prob_empate = 0, prob_vitoria_fora = 0,
                  prob_over = [(1 / 2, 0), (3 / 2, 0), (5 / 2, 0), (7 / 2, 0), (9 / 2, 0)],
                  prob_ambas_marcam = 0\<rparr>"
  have range: "py_range (int (nrows m)) = [0..<n]"
    using assms by (simp add: py_range_def nrows_grid)
  have below: "list_all (\<lambda>j. j < n) [0..<n]"
    by (simp add: list_all_iff)
  from market_rows_grid [OF assms below below, of ?acc0]
  obtain acc where rows: "market_rows m [0..<n] [0..<n] ?acc0 = Inr acc"
      and h: "prob_vitoria_casa acc = (\<Sum>i<n. \<Sum>j<n. if i > j then m ! i ! j else 0)"
      and d: "prob_empate acc = (\<Sum>i<n. \<Sum>j<n. if i = j then m ! i ! j else 0)"
      and a: "prob_vitoria_fora acc = (\<Sum>i<n. \<Sum>j<n. if i < j then m ! i ! j else 0)"
    by (auto simp: sum_list_upt)
  have total: "prob_vitoria_casa acc + prob_empate acc + prob_vitoria_fora acc = sum_grid m"
    unfolding h d a sum_grid_cells [OF assms] by (rule result_buckets_total)
  have "\<exists>probs. calculate_market_probabilities m = Inr probs
           \<and> map_of probs ''1'' = Some (prob_vitoria_casa acc)
           \<and> map_of probs ''X'' = Some (prob_empate acc)
           \<and> map_of probs ''2'' = Some (prob_vitoria_fora acc)"
    by (simp add: calculate_market_probabilities_def Let_def range rows)
  with h d a total show ?thesis by metis
qed

theorem market_result_partition_witness:
  "\<exists>probs. calculate_market_probabilities [[1 / 2, 1 / 4], [1 / 8, 1 / 16]] = Inr probs
           \<and> map_of probs ''1'' = Some (1 / 8) \<and> map_of probs ''X'' = Some (9 / 16)
           \<and> map_of probs ''2'' = Some (1 / 4)
           \<and> sum_grid [[1 / 2, 1 / 4], [1 / 8, 1 / 16]] = 1 / 8 + 9 / 16 + 1 / 4"
  using market_result_partition [of 2 "[[1 / 2, 1 / 4], [1 / 8, 1 / 16]]"]
  by (auto simp: is_grid_def eval_nat_numeral lessThan_Suc)

section \<open>Properties of the score ranker\<close>

lemma insort_key_map:
  "insort_key f (g x) (map g ys) = map g (insort_key (\<lambda>y. f (g y)) x ys)"
  by (induction ys) simp_all

lemma sort_key_map: "sort_key f (map g xs) = map g (sort_key (\<lambda>y. f (g y)) xs)"
  by (induction xs) (simp_all add: sort_key_def insort_key_map)

lemma insort_key_stable:
  fixes k :: "'a \<Rightarrow> real"
  assumes "sorted_wrt (\<lambda>a b. k a < k b \<or> (k a = k b \<and> R a b)) ys"
    and "list_all (R x) ys"
  shows "sorted_wrt (\<lambda>a b. k a < k b \<or> (k a = k b \<and> R a b)) (insort_key k x ys)"
  using assms
proof (induction ys)
  case Nil
  then show ?case by simp
next
  case (Cons y ys)
  show ?case
  proof (cases "k x \<le> k y")
    case True
    have "k x < k z \<or> (k x = k z \<and> R x z)" if "z \<in> set (y # ys)" for z
    proof -
      have "k y \<le> k z" using Cons.prems(1) that by auto
      moreover have "R x z" using Cons.prems(2) that by (auto simp: list_all_iff)
      ultimately show ?thesis using True by auto
    qed
    then show ?thesis using True Cons.prems(1) by simp
  next
    case False
    have "sorted_wrt (\<lambda>a b. k a < k b \<or> (k a = k b \<and> R a b)) (insort_key k x ys)"
      using Cons by simp
    then show ?thesis using False Cons.prems(1) by (auto simp: set_insort_key)
  qed
qed

lemma sort_key_stable_order:
  fixes k :: "'a \<Rightarrow> real"
  assumes "sorted_wrt R xs"
  shows "sorted_wrt (\<lambda>a b. k a < k b \<or> (k a = k b \<and> R a b)) (sort_key k xs)"
  using assms
proof (induction xs)
  case Nil
  then show ?case by simp
next
  case (Cons x xs)
  then have "list_all (R x) (sort_key k xs)"
    by (simp add: list_all_iff)
  with Cons show ?case
    by (simp add: sort_key_def [symmetric] insort_key_stable)
qed

lemma sorted_row_major_product:
  assumes "sorted_wrt (<) xs" "sorted_wrt (<) ys"
  shows "sorted_wrt row_major (List.product xs ys)"
  using assms(1)
proof (induction xs)
  case Nil
  then show ?case by simp
next
  case (Cons x xs)
  have "sorted_wrt row_major (map (Pair x) ys)"
    using assms(2) by (simp add: sorted_wrt_map row_major_def)
  with Cons show ?case
    by (auto simp: sorted_wrt_append row_major_def)
qed

lemma placares_cells:
  "concat (map (\<lambda>i. map (\<lambda>j. (placar i j, m ! i ! j)) cs) rs) =
     map (scored m) (List.product rs cs)"
  by (simp add: product_concat_map map_concat comp_def scored_def)

lemma ranking:
  "\<exists>cells. sorted_reverse snd
             (concat (map (\<lambda>i. map (\<lambda>j. (placar i j, m ! i ! j)) [0..<c]) [0..<r])) =
             map (scored m) cells
         \<and> sorted_wrt (ranked_before m) cells
         \<and> set cells = {..<r} \<times> {..<c}
         \<and> length cells = r * c"
proof -
  let ?k = "\<lambda>c. - (m ! fst c ! snd c)"
  let ?cells = "sort_key ?k (List.product [0..<r] [0..<c])"
  have "sorted_wrt row_major (List.product [0..<r] [0..<c])"
    by (intro sorted_row_major_product sorted_wrt_upt)
  then have "sorted_wrt (\<lambda>a b. ?k a < ?k b \<or> (?k a = ?k b \<and> row_major a b)) ?cells"
    by (rule sort_key_stable_order)
  then have "sorted_wrt (ranked_before m) ?cells"
    by (simp add: ranked_before_def)
  moreover have "sorted_reverse snd
             (concat (map (\<lambda>i. map (\<lambda>j. (placar i j, m ! i ! j)) [0..<c]) [0..<r])) =
             map (scored m) ?cells"
    by (simp add: placares_cells sorted_reverse_def sort_key_map scored_def)
  moreover have "set ?cells = {..<r} \<times> {..<c}"
    by (simp add: atLeast0LessThan)
  moreover have "length ?cells = r * c"
    by simp
  ultimately show ?thesis by blast
qed


lemma ranked_before_prob:
  assumes "sorted_wrt (ranked_before m) cells"
  shows "sorted_wrt (\<lambda>a b. snd a \<ge> snd b) (map (scored m) cells)"
proof -
  have "sorted_wrt (\<lambda>a b. snd (scored m a) \<ge> snd (scored m b)) cells"
    by (rule sorted_wrt_mono_rel [OF _ assms]) (auto simp: ranked_before_def scored_def)
  then show ?thesis by (simp add: sorted_wrt_map)
qed

lemma str_nat_nonempty: "str_nat n \<noteq> []"
  by (subst str_nat.simps) simp

lemma of_char_digit: "d < 10 \<Longrightarrow> (of_char (char_of (48 + d)) :: nat) = 48 + d"
  by (simp add: of_char_of)

lemma str_nat_digits: "list_all digit (str_nat n)"
proof (induction n rule: str_nat.induct)
  case (1 n)
  show ?case
  proof (cases "n < 10")
    case True
    then show ?thesis
      by (subst str_nat.simps) (simp add: digit_def of_char_digit)
  next
    case False
    have "n mod 10 < 10" by simp
    then have "digit (char_of (48 + n mod 10))"
      by (simp only: digit_def of_char_digit) simp
    with False 1 show ?thesis
      by (subst str_nat.simps) simp
  qed
qed

lemma decimal_value_snoc:
  "decimal_value (s @ [c]) = 10 * decimal_value s + ((of_char c :: nat) - 48)"
  by (simp add: decimal_value_def)

lemma str_nat_value: "decimal_value (str_nat n) = n"
proof (induction n rule: str_nat.induct)
  case (1 n)
  show ?case
  proof (cases "n < 10")
    case True
    then show ?thesis
      by (subst str_nat.simps) (simp add: decimal_value_def of_char_digit)
  next
    case False
    have "n mod 10 < 10" by simp
    then have "(of_char (char_of (48 + n mod 10)) :: nat) - 48 = n mod 10"
      by (simp only: of_char_digit diff_add_inverse)
    with False 1 show ?thesis
      by (subst str_nat.simps) (simp add: decimal_value_snoc)
  qed
qed

lemma str_nat_leading: "0 < n \<Longrightarrow> hd (str_nat n) \<noteq> CHR ''0''"
proof (induction n rule: str_nat.induct)
  case (1 n)
  show ?case
  proof (cases "n < 10")
    case True
    have "(of_char (hd (str_nat n)) :: nat) = 48 + n"
      using True by (subst str_nat.simps) (simp add: of_char_digit)
    moreover have "(of_char CHR ''0'' :: nat) = 48" by simp
    ultimately show ?thesis using "1.prems" by auto
  next
    case False
    then have "0 < n div 10" by simp
    with False 1 have "hd (str_nat (n div 10)) \<noteq> CHR ''0''" by simp
    with False show ?thesis
      by (subst str_nat.simps) (simp add: hd_append2 str_nat_nonempty)
  qed
qed

lemma str_nat_0: "str_nat 0 = ''0''"
  by code_simp

lemma str_nat_decimal: "decimal_of n (str_nat n)"
proof (cases "n = 0")
  case True
  then show ?thesis
    by (simp add: decimal_of_def str_nat_0 digit_def decimal_value_def)
next
  case False
  then show ?thesis
    by (simp add: decimal_of_def str_nat_nonempty str_nat_digits str_nat_value str_nat_leading)
qed

lemma placar_labelled: "labelled i j (placar i j)"
  unfolding labelled_def placar_def using str_nat_decimal by blast


text \<open>
  Claim C7. For a score grid of \<open>K + 1\<close> rows and columns and every \<open>n \<ge> 0\<close>, the
  ranker returns \<open>min n (K + 1)\<^sup>2\<close> pairs, in non-increasing order of probability. They
  are the first cells of the ranking of all \<open>(K + 1)\<^sup>2\<close> cells by falling probability,
  cells of equal probability in row-major order (\<open>i\<close> ascending, then \<open>j\<close>): \<open>cells\<close> are
  the cells returned and \<open>rest\<close> those left out. Each pair is the label \<open>i-j\<close> of its cell,
  in decimal, with the probability of the cell; when \<open>n\<close> is at least the number of
  cells nothing is left out.
\<close>

theorem top_scores:
  assumes "0 \<le> n" "is_grid (K + 1) m"
  shows "\<exists>cells rest.
           list_all2 (\<lambda>r c. labelled (fst c) (snd c) (fst r) \<and> snd r = m ! fst c ! snd c)
             (find_most_probable_scores m n) cells
           \<and> length cells = min (nat n) ((K + 1)\<^sup>2)
           \<and> sorted_wrt (\<lambda>a b. snd a \<ge> snd b) (find_most_probable_scores m n)
           \<and> sorted_wrt (ranked_before m) (cells @ rest)
           \<and> set (cells @ rest) = {..K} \<times> {..K}
           \<and> length (cells @ rest) = (K + 1)\<^sup>2
           \<and> (int ((K + 1)\<^sup>2) \<le> n \<longrightarrow> rest = [])"
proof -
  from ranking [of m "K + 1" "K + 1"]
  obtain all_cells where
    sorted: "sorted_reverse snd
       (concat (map (\<lambda>i. map (\<lambda>j. (placar i j, m ! i ! j)) [0..<K + 1]) [0..<K + 1])) =
       map (scored m) all_cells"
    and order: "sorted_wrt (ranked_before m) all_cells"
    and cells: "set all_cells = {..<K + 1} \<times> {..<K + 1}"
    and len: "length all_cells = (K + 1) * (K + 1)"
    by blast
  let ?cells = "take (nat n) all_cells" and ?rest = "drop (nat n) all_cells"
  have below: "{..<K + 1} = {..K}"
    by auto
  have result: "find_most_probable_scores m n = map (scored m) ?cells"
    using assms sorted
    by (simp add: find_most_probable_scores_def Let_def nrows_grid ncols_grid
        py_prefix_def take_map)
  have 1: "list_all2 (\<lambda>r c. labelled (fst c) (snd c) (fst r) \<and> snd r = m ! fst c ! snd c)
             (find_most_probable_scores m n) ?cells"
    unfolding result list_all2_map1
    by (rule list_all2_refl) (simp add: scored_def placar_labelled)
  have 2: "length ?cells = min (nat n) ((K + 1)\<^sup>2)"
    by (simp add: len power2_eq_square min.commute)
  have "sorted_wrt (ranked_before m) ?cells"
    using order by (rule sorted_wrt_take)
  then have 3: "sorted_wrt (\<lambda>a b. snd a \<ge> snd b) (find_most_probable_scores m n)"
    unfolding result by (rule ranked_before_prob)
  have 4: "sorted_wrt (ranked_before m) (?cells @ ?rest)"
    using order by simp
  have 5: "set (?cells @ ?rest) = {..K} \<times> {..K}"
    using cells below by simp
  have 6: "length (?cells @ ?rest) = (K + 1)\<^sup>2"
    using len by (simp add: power2_eq_square)
  have 7: "?rest = []" if "int ((K + 1)\<^sup>2) \<le> n"
  proof -
    from that have "int (length all_cells) \<le> n"
      by (simp only: len power2_eq_square)
    then have "length all_cells \<le> nat n"
      by linarith
    then show ?thesis by simp
  qed
  from 1 2 3 4 5 6 7 show ?thesis by blast
qed

theorem top_scores_witness:
  "find_most_probable_scores [[1 / 2, 1 / 4], [1 / 4, 1 / 16]] 2 =
     [(''0-0'', 1 / 2), (''0-1'', 1 / 4)]
   \<and> length (find_most_probable_scores [[1 / 2, 1 / 4], [1 / 4, 1 / 16]] 2) =
       min (nat 2) ((1 + 1)\<^sup>2)"
proof -
  have grid: "is_grid (1 + 1) [[1 / 2, 1 / 4], [1 / 4, 1 / 16 :: real]]"
    by (simp add: is_grid_def)
  have n: "(0::int) \<le> 2" by simp
  from top_scores [OF n grid]
  obtain cells :: "(nat \<times> nat) list" where
    "list_all2 (\<lambda>r c. labelled (fst c) (snd c) (fst r)
          \<and> snd r = [[1 / 2, 1 / 4], [1 / 4, 1 / 16 :: real]] ! fst c ! snd c)
       (find_most_probable_scores [[1 / 2, 1 / 4], [1 / 4, 1 / 16]] 2) cells"
      and "length cells = min (nat 2) ((1 + 1)\<^sup>2)"
    by blast
  then have "length (find_most_probable_scores [[1 / 2, 1 / 4], [1 / 4, 1 / 16]] 2) =
       min (nat 2) ((1 + 1)\<^sup>2)"
    by (simp add: list_all2_lengthD)
  moreover have "find_most_probable_scores [[1 / 2, 1 / 4], [1 / 4, 1 / 16]] 2 =
     [(''0-0'', 1 / 2), (''0-1'', 1 / 4)]"
    by code_simp
  ultimately show ?thesis by blast
qed

end
